theory Spec2Isabelle
  imports Complex_Main "HOL-Library.Word"
begin

unbundle bit_operations_syntax

section \<open>Images, masks and the colour table\<close>

text \<open>
  The program \<^verbatim>\<open>motion_detector.cpp\<close> reads frames from a camera, looks for coloured
  blobs whose centroid moved by more than a threshold and then records one clip.
  An HSV image is a list of rows of three-channel byte pixels (\<^verbatim>\<open>Vec3b\<close>); a mask is a
  list of rows of bytes (\<^verbatim>\<open>CV_8U\<close>), 255 for a selected pixel and 0 otherwise.
  A \<^verbatim>\<open>Scalar\<close> bound holds whole numbers, kept here as integers.
\<close>

type_synonym pixel = "8 word \<times> 8 word \<times> 8 word"
type_synonym image = "pixel list list"
type_synonym mask = "8 word list list"
type_synonym kernel = "bool list list"
type_synonym scalar = "int \<times> int \<times> int"
type_synonym point = "int \<times> int"

record ColorRange =
  lower :: scalar
  upper :: scalar

text \<open>The table \<^verbatim>\<open>colorRanges\<close>, in its declaration order:
  blue, red part 1, red part 2, green, yellow, white.\<close>

definition colorRanges :: "ColorRange list" where
  "colorRanges =
    [\<lparr>lower = (100, 100, 50), upper = (130, 255, 255)\<rparr>,
     \<lparr>lower = (0, 100, 50), upper = (10, 255, 255)\<rparr>,
     \<lparr>lower = (160, 100, 50), upper = (179, 255, 255)\<rparr>,
     \<lparr>lower = (40, 70, 50), upper = (80, 255, 255)\<rparr>,
     \<lparr>lower = (20, 100, 100), upper = (30, 255, 255)\<rparr>,
     \<lparr>lower = (0, 0, 200), upper = (179, 30, 255)\<rparr>]"

text \<open>The constants declared at the top of \<^verbatim>\<open>main\<close>.\<close>

definition writeFps :: real where
  "writeFps = 15"

definition recordDurationS :: int where
  "recordDurationS = 30"

text \<open>The C++ conversion \<^verbatim>\<open>int(x)\<close> of a double discards the fraction.\<close>

definition to_int :: "real \<Rightarrow> int" where
  "to_int x = (if 0 \<le> x then \<lfloor>x\<rfloor> else \<lceil>x\<rceil>)"

definition maxRecordingFrames :: int where
  "maxRecordingFrames = to_int (writeFps * of_int recordDurationS + 0.5)"

definition motionThreshold :: real where
  "motionThreshold = 30"

definition quietPeriod :: int where
  "quietPeriod = 10"

definition erodeSize :: int where
  "erodeSize = 2"

definition dilateSize :: int where
  "dilateSize = 2"

definition invalid :: point where
  "invalid = (-1, -1)"

section \<open>The OpenCV primitives\<close>

text \<open>
  The routines of the library whose result is decided by the library alone are taken as
  parameters: whether a frame is empty, the conversion to HSV, the structuring element
  and the two morphological operators. Every general theorem below holds for all of them.
\<close>

record 'f cvlib =
  empty :: "'f \<Rightarrow> bool"
  cvtColor :: "'f \<Rightarrow> image"
  getStructuringElement :: "int \<Rightarrow> int \<Rightarrow> kernel"
  erode :: "mask \<Rightarrow> kernel \<Rightarrow> mask"
  dilate :: "mask \<Rightarrow> kernel \<Rightarrow> mask"

text \<open>\<^verbatim>\<open>inRange\<close>: a pixel is selected when each channel lies between the bounds,
  both bounds included.\<close>

definition inBounds :: "pixel \<Rightarrow> scalar \<Rightarrow> scalar \<Rightarrow> bool" where
  "inBounds p lo hi =
    (case (p, lo, hi) of
      ((h, s, v), (l0, l1, l2), (u0, u1, u2)) \<Rightarrow>
        l0 \<le> uint h \<and> uint h \<le> u0 \<and> l1 \<le> uint s \<and> uint s \<le> u1 \<and> l2 \<le> uint v \<and> uint v \<le> u2)"

definition inRange :: "image \<Rightarrow> scalar \<Rightarrow> scalar \<Rightarrow> mask" where
  "inRange src lo hi = map (map (\<lambda>p. if inBounds p lo hi then 255 else 0)) src"

text \<open>\<^verbatim>\<open>bitwise_or\<close> of two masks of the same size.\<close>

definition bitwise_or :: "mask \<Rightarrow> mask \<Rightarrow> mask" where
  "bitwise_or a b = map2 (map2 (OR)) a b"

text \<open>The mask of colour index \<open>i\<close> (lines 104 to 112): index 1 joins the two red
  ranges, every other index uses its own range.\<close>

definition colorMask :: "image \<Rightarrow> nat \<Rightarrow> mask" where
  "colorMask hsv i =
    (if i = 1 then
       bitwise_or (inRange hsv (lower (colorRanges ! 1)) (upper (colorRanges ! 1)))
                  (inRange hsv (lower (colorRanges ! 2)) (upper (colorRanges ! 2)))
     else inRange hsv (lower (colorRanges ! i)) (upper (colorRanges ! i)))"

definition applyMorphology :: "'f cvlib \<Rightarrow> mask \<Rightarrow> int \<Rightarrow> int \<Rightarrow> mask" where
  "applyMorphology cv src erodeSz dilateSz =
    (let dst = src;
         dst = (if erodeSz > 0
                then erode cv dst (getStructuringElement cv (erodeSz * 2 + 1) (erodeSz * 2 + 1))
                else dst);
         dst = (if dilateSz > 0
                then dilate cv dst (getStructuringElement cv (dilateSz * 2 + 1) (dilateSz * 2 + 1))
                else dst)
     in dst)"

text \<open>
  \<^verbatim>\<open>moments(proc, true)\<close>: with the binary flag every non-zero pixel weighs 1, so
  \<open>m00\<close> counts the selected pixels and \<open>m10\<close>, \<open>m01\<close> add up their column and row
  numbers. The library keeps them in doubles; they are whole numbers far below \<open>2^53\<close>,
  so the doubles are exact and are kept here as integers.
\<close>

record Moments =
  m00 :: int
  m10 :: int
  m01 :: int

definition rowCount :: "8 word list \<Rightarrow> int" where
  "rowCount row = int (length (filter (\<lambda>v. v \<noteq> 0) row))"

definition rowSum :: "8 word list \<Rightarrow> int" where
  "rowSum row = sum_list (map (\<lambda>(x, v). if v \<noteq> 0 then int x else 0) (enumerate 0 row))"

definition moments :: "mask \<Rightarrow> Moments" where
  "moments m =
    \<lparr>m00 = sum_list (map rowCount m),
     m10 = sum_list (map rowSum m),
     m01 = sum_list (map (\<lambda>(y, row). int y * rowCount row) (enumerate 0 m))\<rparr>"

text \<open>\<^verbatim>\<open>Point c(int(M.m10/M.m00), int(M.m01/M.m00))\<close>: the quotient of two non-negative
  whole numbers, truncated.\<close>

definition centroid :: "Moments \<Rightarrow> point" where
  "centroid M = (m10 M div m00 M, m01 M div m00 M)"

text \<open>\<^verbatim>\<open>norm(c - last)\<close> on integer points: the square root of the sum of the squares.
  The sum is a whole number, the square root of a double is correctly rounded and 30 is a
  double, so the comparison with the threshold is the one of the real numbers.\<close>

definition minus_pt :: "point \<Rightarrow> point \<Rightarrow> point" where
  "minus_pt a b = (fst a - fst b, snd a - snd b)"

definition norm_pt :: "point \<Rightarrow> real" where
  "norm_pt p = sqrt (of_int (fst p * fst p + snd p * snd p))"

definition colorMoments :: "'f cvlib \<Rightarrow> 'f \<Rightarrow> nat \<Rightarrow> Moments" where
  "colorMoments cv frame i =
    moments (applyMorphology cv (colorMask (cvtColor cv frame) i) erodeSize dilateSize)"

section \<open>The state of one cycle\<close>

text \<open>The video sink: whether it is open, and the frames written to the file since it
  was last opened. Opening the sink is taken to succeed; a write to a sink that is not
  open does nothing.\<close>

record 'f VideoWriter =
  isOpened :: bool
  written :: "'f list"

definition open_writer :: "'f VideoWriter" where
  "open_writer = \<lparr>isOpened = True, written = []\<rparr>"

definition write_frame :: "'f VideoWriter \<Rightarrow> 'f \<Rightarrow> 'f VideoWriter" where
  "write_frame w f = (if isOpened w then w\<lparr>written := written w @ [f]\<rparr> else w)"

definition release :: "'f VideoWriter \<Rightarrow> 'f VideoWriter" where
  "release w = w\<lparr>isOpened := False\<rparr>"

record 'f state =
  lastCentroids :: "point list"
  lastSnapshot :: int
  isRecording :: bool
  recordingFrames :: int
  writer :: "'f VideoWriter"
  out :: "string list"

text \<open>Lines 76 to 84: the prompt, then the reset of the state at the start of a cycle.
  \<open>t0\<close> is what \<^verbatim>\<open>time(nullptr)\<close> returns there.\<close>

definition startCycle :: "'f state \<Rightarrow> int \<Rightarrow> 'f state" where
  "startCycle s t0 =
    \<lparr>lastCentroids = map (\<lambda>_. invalid) (lastCentroids s),
     lastSnapshot = t0 - quietPeriod,
     isRecording = False,
     recordingFrames = 0,
     writer = \<lparr>isOpened = False, written = []\<rparr>,
     out = out s @ [''Press Enter to start one detection/recording cycle...'']\<rparr>"

section \<open>The detection attempt\<close>

text \<open>The test of line 118 and 119 on the new centroid \<open>c\<close> and the stored one.\<close>

definition moved :: "point \<Rightarrow> point \<Rightarrow> bool" where
  "moved c l = (l \<noteq> invalid \<and> norm_pt (minus_pt c l) > motionThreshold)"

text \<open>Lines 121 to 128: open the sink and start the session.\<close>

definition startRecording :: "'f \<Rightarrow> 'f state \<Rightarrow> 'f state" where
  "startRecording frame s =
    s\<lparr>writer := open_writer, isRecording := True, recordingFrames := 0,
      out := out s @ [''Started recording due to motion.'']\<rparr>"

text \<open>The body of the loop over the colours for index \<open>i\<close> (lines 102 to 132). The
  first component tells whether the body left the loop with \<^verbatim>\<open>break\<close>.\<close>

definition colorStep :: "'f cvlib \<Rightarrow> 'f \<Rightarrow> nat \<Rightarrow> 'f state \<Rightarrow> bool \<times> 'f state" where
  "colorStep cv frame i s =
    (if m00 (colorMoments cv frame i) > 0 then
       (if moved (centroid (colorMoments cv frame i)) (lastCentroids s ! i)
        then (True, startRecording frame s)
        else (False,
              s\<lparr>lastCentroids := (lastCentroids s)[i := centroid (colorMoments cv frame i)]\<rparr>))
     else (False, s))"

text \<open>The loop itself (line 101), from index \<open>i\<close> on. The result is the flag
  \<^verbatim>\<open>movementDetected\<close> and the state.\<close>

function colorLoop :: "'f cvlib \<Rightarrow> 'f \<Rightarrow> nat \<Rightarrow> 'f state \<Rightarrow> bool \<times> 'f state" where
  "colorLoop cv frame i s =
    (if i < length colorRanges then
       (if fst (colorStep cv frame i s) then (True, snd (colorStep cv frame i s))
        else colorLoop cv frame (i + 1) (snd (colorStep cv frame i s)))
     else (False, s))"
  by pat_completeness auto
termination
  by (relation "measure (\<lambda>(cv, frame, i, s). length colorRanges - i)") auto

text \<open>Colour \<open>i\<close> has a blob in the frame, a stored centroid, and the blob is further from
  it than the threshold: the condition under which the body starts a recording.\<close>

definition triggers :: "'f cvlib \<Rightarrow> 'f \<Rightarrow> point list \<Rightarrow> nat \<Rightarrow> bool" where
  "triggers cv frame lc i =
    (m00 (colorMoments cv frame i) > 0 \<and> lc ! i \<noteq> invalid \<and>
     norm_pt (minus_pt (centroid (colorMoments cv frame i)) (lc ! i)) > motionThreshold)"

text \<open>The guard of line 97 and the attempt it protects (lines 98 to 137).\<close>

definition detectionDue :: "'f state \<Rightarrow> int \<Rightarrow> bool" where
  "detectionDue s now = (\<not> isRecording s \<and> of_int (now - lastSnapshot s) \<ge> (of_int quietPeriod :: real))"

definition detectionAttempt :: "'f cvlib \<Rightarrow> 'f \<Rightarrow> int \<Rightarrow> 'f state \<Rightarrow> 'f state" where
  "detectionAttempt cv frame now s =
    (case colorLoop cv frame 0 s of
      (movementDetected, s') \<Rightarrow>
        if \<not> movementDetected then s'\<lparr>lastSnapshot := now\<rparr> else s')"

section \<open>The inner loop\<close>

text \<open>One pass of the inner loop reads a frame, the clock and the key of \<^verbatim>\<open>waitKey\<close>.
  It goes on, leaves the loop with \<^verbatim>\<open>break\<close>, or returns from \<^verbatim>\<open>main\<close>.\<close>

datatype 'f step =
    Continue (state_of: "'f state")
  | Break (state_of: "'f state")
  | Return int (state_of: "'f state")

type_synonym 'f input = "'f \<times> int \<times> int"

text \<open>Lines 151 to 155.\<close>

definition pollKey :: "int \<Rightarrow> 'f state \<Rightarrow> 'f step" where
  "pollKey key s =
    (if key = 27
     then Return 0 (if isOpened (writer s) then s\<lparr>writer := release (writer s)\<rparr> else s)
     else Continue s)"

text \<open>Lines 141 to 149.\<close>

definition writeAndStop :: "'f \<Rightarrow> int \<Rightarrow> 'f state \<Rightarrow> 'f step" where
  "writeAndStop frame key s =
    (if isRecording s then
       (let s1 = s\<lparr>writer := write_frame (writer s) frame,
                   recordingFrames := recordingFrames s + 1\<rparr>
        in if recordingFrames s1 \<ge> maxRecordingFrames
           then Break (s1\<lparr>writer := release (writer s1), isRecording := False,
                          out := out s1 @ [''Stopped recording after one clip.'']\<rparr>)
           else pollKey key s1)
     else pollKey key s)"

definition iteration :: "'f cvlib \<Rightarrow> 'f state \<Rightarrow> 'f input \<Rightarrow> 'f step" where
  "iteration cv s inp =
    (case inp of
      (frame, now, key) \<Rightarrow>
        if empty cv frame
        then Return 1 (s\<lparr>out := out s @ [''Camera disconnected!'']\<rparr>)
        else writeAndStop frame key
               (if detectionDue s now then detectionAttempt cv frame now s else s))"

text \<open>The inner loop over the inputs the program reads. When they run out the program is
  blocked in \<^verbatim>\<open>cap.read\<close>.\<close>

datatype 'f outcome =
    Exit int (final: "'f state")
  | ClipDone (final: "'f state")
  | Blocked (final: "'f state")

fun innerLoop :: "'f cvlib \<Rightarrow> 'f state \<Rightarrow> 'f input list \<Rightarrow> 'f outcome" where
  "innerLoop cv s [] = Blocked s"
| "innerLoop cv s (inp # rest) =
    (case iteration cv s inp of
      Continue s' \<Rightarrow> innerLoop cv s' rest
    | Break s' \<Rightarrow> ClipDone s'
    | Return code s' \<Rightarrow> Exit code s')"

text \<open>The outer loop: each cycle is given the time of its reset and the inputs the camera
  would supply during it; those after the end of the clip are never read.\<close>

fun mainLoop :: "'f cvlib \<Rightarrow> 'f state \<Rightarrow> (int \<times> 'f input list) list \<Rightarrow> 'f outcome" where
  "mainLoop cv s [] = Blocked s"
| "mainLoop cv s ((t0, inps) # cycles) =
    (case innerLoop cv (startCycle s t0) inps of
      ClipDone s' \<Rightarrow> mainLoop cv s' cycles
    | Exit code s' \<Rightarrow> Exit code s'
    | Blocked s' \<Rightarrow> Blocked s')"

text \<open>The state \<^verbatim>\<open>main\<close> sets up before the outer loop (line 72). The variables a
  cycle declares anew have no value yet; they are given the values of an idle controller.\<close>

definition initial :: "'f state" where
  "initial =
    \<lparr>lastCentroids = replicate (length colorRanges) invalid,
     lastSnapshot = 0,
     isRecording = False,
     recordingFrames = 0,
     writer = \<lparr>isOpened = False, written = []\<rparr>,
     out = []\<rparr>"

definition main :: "'f cvlib \<Rightarrow> bool \<Rightarrow> (int \<times> 'f input list) list \<Rightarrow> 'f outcome" where
  "main cv capOpened cycles =
    (if \<not> capOpened then Exit 1 (initial\<lparr>out := [''Could not open camera.'']\<rparr>)
     else mainLoop cv initial cycles)"

section \<open>A reference instance of the library\<close>

text \<open>
  To run the model on concrete frames the parameters are instantiated: a frame is given by
  its HSV image, the structuring element is the library's ellipse (row \<open>i\<close> spans the
  columns within the rounded half-width of the ellipse at that height), erosion takes the
  minimum and dilation the maximum over the element, and positions outside the image do
  not take part (the library's default border).
\<close>

definition ellipseHalfWidth :: "int \<Rightarrow> int \<Rightarrow> int \<Rightarrow> int" where
  "ellipseHalfWidth r c dy =
    (if r = 0 then 0
     else int (length (takeWhile (\<lambda>k. (2 * k + 1)\<^sup>2 * r\<^sup>2 \<le> 4 * c\<^sup>2 * (r\<^sup>2 - dy\<^sup>2)) [0..c + 1])))"

definition ref_getStructuringElement :: "int \<Rightarrow> int \<Rightarrow> kernel" where
  "ref_getStructuringElement w h =
    map (\<lambda>i. map (\<lambda>j. max (w div 2 - ellipseHalfWidth (h div 2) (w div 2) (i - h div 2)) 0 \<le> j
                     \<and> j < min (w div 2 + ellipseHalfWidth (h div 2) (w div 2) (i - h div 2) + 1) w)
               [0..w - 1])
        [0..h - 1]"

definition offsets :: "kernel \<Rightarrow> (int \<times> int) list" where
  "offsets k =
    concat (map (\<lambda>(i, row).
      concat (map (\<lambda>(j, b). if b then [(int i - int (length k div 2), int j - int (length row div 2))] else [])
                  (enumerate 0 row)))
      (enumerate 0 k))"

text \<open>The image moved by an offset: its pixel \<open>(y, x)\<close> is the pixel \<open>(y + dy, x + dx)\<close>
  of the source, or \<open>fill\<close> where that lies outside.\<close>

definition shift :: "int \<Rightarrow> 'a \<Rightarrow> 'a list \<Rightarrow> 'a list" where
  "shift d fill xs =
    (if 0 \<le> d then drop (nat d) xs @ replicate (min (nat d) (length xs)) fill
     else replicate (min (nat (- d)) (length xs)) fill @ take (length xs - nat (- d)) xs)"

definition translate :: "int \<times> int \<Rightarrow> 8 word \<Rightarrow> mask \<Rightarrow> mask" where
  "translate off fill m =
    shift (fst off) (replicate (case m of [] \<Rightarrow> 0 | row # _ \<Rightarrow> length row) fill)
      (map (shift (snd off) fill) m)"

definition morph :: "(8 word \<Rightarrow> 8 word \<Rightarrow> 8 word) \<Rightarrow> 8 word \<Rightarrow> mask \<Rightarrow> kernel \<Rightarrow> mask" where
  "morph f e m k =
    fold (\<lambda>off acc. map2 (map2 f) acc (translate off e m)) (offsets k) (map (map (\<lambda>_. e)) m)"

definition ref_erode :: "mask \<Rightarrow> kernel \<Rightarrow> mask" where
  "ref_erode = morph min 255"

definition ref_dilate :: "mask \<Rightarrow> kernel \<Rightarrow> mask" where
  "ref_dilate = morph max 0"

definition refcv :: "image cvlib" where
  "refcv =
    \<lparr>empty = (\<lambda>f. concat f = []),
     cvtColor = (\<lambda>f. f),
     getStructuringElement = ref_getStructuringElement,
     erode = ref_erode,
     dilate = ref_dilate\<rparr>"

section \<open>Concrete scenes\<close>

text \<open>Frames of one row used to run the program: a blue and a green blob at the left
  (scene A), both at the right (scene B), the blue blob 30 columns to the right of where
  scene A has it (scene C), a dark frame, and two scenes with a blob in the lower red
  range that stays and a blob in the upper red range that moves from the left border to
  the right border.\<close>

definition px_black :: pixel where
  "px_black = (0, 0, 0)"

definition px_blue :: pixel where
  "px_blue = (110, 200, 200)"

definition px_green :: pixel where
  "px_green = (60, 200, 200)"

definition px_red_low :: pixel where
  "px_red_low = (5, 200, 200)"

definition px_red_high :: pixel where
  "px_red_high = (170, 200, 200)"

definition frameA :: image where
  "frameA =
    [replicate 3 px_blue @ replicate 5 px_green @ replicate 34 px_black]"

definition frameB :: image where
  "frameB =
    [replicate 34 px_black @ replicate 5 px_green @ replicate 3 px_blue]"

definition frameC :: image where
  "frameC =
    [replicate 29 px_black @ replicate 5 px_blue @ replicate 8 px_black]"

definition frameDark :: image where
  "frameDark = [[px_black]]"

definition frameR1 :: image where
  "frameR1 =
    [replicate 3 px_red_high @ replicate 12 px_black @ replicate 5 px_red_low
     @ replicate 14 px_black]"

definition frameR2 :: image where
  "frameR2 =
    [replicate 15 px_black @ replicate 5 px_red_low @ replicate 11 px_black
     @ replicate 3 px_red_high]"

text \<open>The moments of a blob of \<open>n\<close> pixels in row 0 whose column numbers add up to \<open>sx\<close>.\<close>

definition blob :: "int \<Rightarrow> int \<Rightarrow> Moments" where
  "blob n sx = \<lparr>m00 = n, m10 = sx, m01 = 0\<rparr>"

text \<open>The state after the first pass of a cycle started at time 0, on scene A and on the
  first red scene, and the state after a pass on the dark frame at time 100.\<close>

definition stateA :: "image state" where
  "stateA = detectionAttempt refcv frameA 0 (startCycle initial 0)"

definition stateR :: "image state" where
  "stateR = detectionAttempt refcv frameR1 0 (startCycle initial 0)"

definition stateQ :: "image state" where
  "stateQ = detectionAttempt refcv frameDark 100 (startCycle initial 100)"

section \<open>Arithmetic of the constants\<close>

lemma length_colorRanges: "length colorRanges = 6"
  by (simp add: colorRanges_def)

lemma maxRecordingFrames_450: "maxRecordingFrames = 450"
  by (simp add: maxRecordingFrames_def to_int_def writeFps_def recordDurationS_def)

lemma norm_pt_gt_iff: "norm_pt p > motionThreshold \<longleftrightarrow> fst p * fst p + snd p * snd p > 900"
proof -
  define n where "n = fst p * fst p + snd p * snd p"
  have s: "sqrt (900::real) = 30"
    by (rule real_sqrt_unique) simp_all
  have "norm_pt p > motionThreshold \<longleftrightarrow> sqrt (of_int 900) < sqrt (of_int n)"
    using s by (simp add: norm_pt_def motionThreshold_def n_def)
  also have "\<dots> \<longleftrightarrow> (of_int 900 :: real) < of_int n"
    by (rule real_sqrt_less_iff)
  also have "\<dots> \<longleftrightarrow> 900 < n"
    by (rule of_int_less_iff)
  finally show ?thesis
    by (simp add: n_def)
qed

lemma moved_code [code]:
  "moved c l =
    (l \<noteq> invalid \<and>
     fst (minus_pt c l) * fst (minus_pt c l) + snd (minus_pt c l) * snd (minus_pt c l) > 900)"
  by (simp add: moved_def norm_pt_gt_iff)

lemma detectionDue_code [code]:
  "detectionDue s now = (\<not> isRecording s \<and> quietPeriod \<le> now - lastSnapshot s)"
  by (simp add: detectionDue_def flip: of_int_diff)

section \<open>Moments and centroids\<close>

lemma rowSum_nonneg: "0 \<le> rowSum row"
  unfolding rowSum_def by (rule sum_list_nonneg) (auto split: if_splits)

lemma rowCount_nonneg: "0 \<le> rowCount row"
  by (simp add: rowCount_def)

lemma moments_nonneg: "0 \<le> m10 (moments m)" "0 \<le> m01 (moments m)" "0 \<le> m00 (moments m)"
  unfolding moments_def
  by (auto intro!: sum_list_nonneg simp: rowSum_nonneg rowCount_nonneg)

lemma centroid_valid:
  assumes pos: "m00 (colorMoments cv f i) > 0"
  shows "centroid (colorMoments cv f i) \<noteq> invalid"
proof -
  have "0 \<le> m10 (colorMoments cv f i)"
    by (simp add: colorMoments_def moments_nonneg)
  with pos have "0 \<le> m10 (colorMoments cv f i) div m00 (colorMoments cv f i)"
    by (simp add: pos_imp_zdiv_nonneg_iff)
  then show ?thesis
    by (auto simp: centroid_def invalid_def)
qed

section \<open>The body of the colour loop\<close>

lemma colorStep_breaks: "fst (colorStep cv f i s) = triggers cv f (lastCentroids s) i"
  by (auto simp: colorStep_def triggers_def moved_def)

lemma colorStep_centroids:
  "lastCentroids (snd (colorStep cv f i s)) =
    (if m00 (colorMoments cv f i) > 0 \<and> \<not> triggers cv f (lastCentroids s) i
     then (lastCentroids s)[i := centroid (colorMoments cv f i)] else lastCentroids s)"
  by (auto simp: colorStep_def triggers_def moved_def startRecording_def)

lemma colorStep_other:
  "j \<noteq> i \<Longrightarrow> lastCentroids (snd (colorStep cv f i s)) ! j = lastCentroids s ! j"
  by (simp add: colorStep_centroids)

lemma colorStep_rest:
  "snd (colorStep cv f i s) =
    (if fst (colorStep cv f i s)
     then startRecording f s
     else s\<lparr>lastCentroids := lastCentroids (snd (colorStep cv f i s))\<rparr>)"
  by (simp add: colorStep_def)

lemma triggers_cong: "lc' ! i = lc ! i \<Longrightarrow> triggers cv f lc' i = triggers cv f lc i"
  by (simp add: triggers_def)

section \<open>The colour loop\<close>

declare colorLoop.simps [simp del]

lemma colorLoop_length:
  "length (lastCentroids (snd (colorLoop cv f i s))) = length (lastCentroids s)"
proof (induction cv f i s rule: colorLoop.induct)
  case (1 cv frame i s)
  then show ?case
    by (subst colorLoop.simps) (simp add: colorStep_centroids colorStep_breaks startRecording_def)
qed

lemma colorLoop_below:
  "j < i \<Longrightarrow> lastCentroids (snd (colorLoop cv f i s)) ! j = lastCentroids s ! j"
proof (induction cv f i s rule: colorLoop.induct)
  case (1 cv frame i s)
  then show ?case
    by (subst colorLoop.simps) (simp add: colorStep_other)
qed

lemma colorLoop_moved_iff:
  "fst (colorLoop cv f i s) \<longleftrightarrow>
    (\<exists>j. i \<le> j \<and> j < length colorRanges \<and> triggers cv f (lastCentroids s) j)"
proof (induction cv f i s rule: colorLoop.induct)
  case (1 cv frame i s)
  show ?case
  proof (cases "i < length colorRanges")
    case False
    then show ?thesis by (subst colorLoop.simps) auto
  next
    case inr: True
    show ?thesis
    proof (cases "triggers cv frame (lastCentroids s) i")
      case True
      then show ?thesis using inr
        by (subst colorLoop.simps) (auto simp: colorStep_breaks)
    next
      case nt: False
      have same: "triggers cv frame (lastCentroids (snd (colorStep cv frame i s))) j
        = triggers cv frame (lastCentroids s) j" if "i < j" for j
        using that by (intro triggers_cong colorStep_other) simp
      have "(\<exists>j. i \<le> j \<and> j < length colorRanges \<and> triggers cv frame (lastCentroids s) j)
        \<longleftrightarrow> (\<exists>j. i + 1 \<le> j \<and> j < length colorRanges \<and> triggers cv frame (lastCentroids s) j)"
        using nt by (metis Suc_eq_plus1 Suc_le_eq le_neq_implies_less less_imp_le_nat)
      also have "\<dots> \<longleftrightarrow> (\<exists>j. i + 1 \<le> j \<and> j < length colorRanges
          \<and> triggers cv frame (lastCentroids (snd (colorStep cv frame i s))) j)"
        using same by auto
      finally show ?thesis
        using "1.IH" inr nt
        by (subst colorLoop.simps) (simp add: colorStep_breaks)
    qed
  qed
qed

lemma colorStep_fields:
  "lastSnapshot (snd (colorStep cv f i s)) = lastSnapshot s"
  "isRecording (snd (colorStep cv f i s)) = (fst (colorStep cv f i s) \<or> isRecording s)"
  "recordingFrames (snd (colorStep cv f i s)) = (if fst (colorStep cv f i s) then 0 else recordingFrames s)"
  "writer (snd (colorStep cv f i s)) = (if fst (colorStep cv f i s) then open_writer else writer s)"
  "out (snd (colorStep cv f i s)) =
    (if fst (colorStep cv f i s) then out s @ [''Started recording due to motion.''] else out s)"
  by (simp_all add: colorStep_def startRecording_def)

lemma colorLoop_lastSnapshot: "lastSnapshot (snd (colorLoop cv f i s)) = lastSnapshot s"
proof (induction cv f i s rule: colorLoop.induct)
  case (1 cv frame i s)
  then show ?case
    by (simp add: colorLoop.simps [of cv frame i s] colorStep_fields)
qed

lemma colorLoop_isRecording:
  "isRecording (snd (colorLoop cv f i s)) = (fst (colorLoop cv f i s) \<or> isRecording s)"
proof (induction cv f i s rule: colorLoop.induct)
  case (1 cv frame i s)
  then show ?case
    by (simp add: colorLoop.simps [of cv frame i s] colorStep_fields)
qed

lemma colorLoop_recordingFrames:
  "recordingFrames (snd (colorLoop cv f i s)) = (if fst (colorLoop cv f i s) then 0 else recordingFrames s)"
proof (induction cv f i s rule: colorLoop.induct)
  case (1 cv frame i s)
  then show ?case
    by (simp add: colorLoop.simps [of cv frame i s] colorStep_fields)
qed

lemma colorLoop_writer:
  "writer (snd (colorLoop cv f i s)) = (if fst (colorLoop cv f i s) then open_writer else writer s)"
proof (induction cv f i s rule: colorLoop.induct)
  case (1 cv frame i s)
  then show ?case
    by (simp add: colorLoop.simps [of cv frame i s] colorStep_fields)
qed

lemma colorLoop_out:
  "out (snd (colorLoop cv f i s)) =
    (if fst (colorLoop cv f i s) then out s @ [''Started recording due to motion.''] else out s)"
proof (induction cv f i s rule: colorLoop.induct)
  case (1 cv frame i s)
  then show ?case
    by (simp add: colorLoop.simps [of cv frame i s] colorStep_fields)
qed

lemmas colorLoop_fields =
  colorLoop_lastSnapshot colorLoop_isRecording colorLoop_recordingFrames colorLoop_writer colorLoop_out

lemma colorLoop_empty_mask:
  "\<not> m00 (colorMoments cv f j) > 0 \<Longrightarrow>
    lastCentroids (snd (colorLoop cv f i s)) ! j = lastCentroids s ! j"
proof (induction cv f i s rule: colorLoop.induct)
  case (1 cv frame i s)
  have "lastCentroids (snd (colorStep cv frame i s)) ! j = lastCentroids s ! j"
    using "1.prems" by (cases "j = i") (simp_all add: colorStep_centroids)
  with 1 show ?case
    by (subst colorLoop.simps) simp
qed

lemma colorLoop_valid_stays:
  "lastCentroids s ! j \<noteq> invalid \<Longrightarrow> lastCentroids (snd (colorLoop cv f i s)) ! j \<noteq> invalid"
proof (induction cv f i s rule: colorLoop.induct)
  case (1 cv frame i s)
  have "lastCentroids (snd (colorStep cv frame i s)) ! j \<noteq> invalid"
  proof (cases "i < length (lastCentroids s)")
    case True
    then show ?thesis
      using "1.prems" centroid_valid [of cv frame i]
      by (auto simp: colorStep_centroids nth_list_update)
  next
    case False
    then show ?thesis
      using "1.prems" by (simp add: colorStep_centroids list_update_beyond)
  qed
  with 1 show ?case
    by (subst colorLoop.simps) simp
qed

lemma colorLoop_after_trigger:
  "triggers cv f (lastCentroids s) j \<Longrightarrow> i \<le> j \<Longrightarrow> j < length colorRanges \<Longrightarrow> j \<le> k \<Longrightarrow>
    lastCentroids (snd (colorLoop cv f i s)) ! k = lastCentroids s ! k"
proof (induction cv f i s rule: colorLoop.induct)
  case (1 cv frame i s)
  have inr: "i < length colorRanges"
    using "1.prems" by simp
  show ?case
  proof (cases "fst (colorStep cv frame i s)")
    case True
    then show ?thesis
      using inr colorStep_rest [of cv frame i s]
      by (subst colorLoop.simps) (simp add: startRecording_def)
  next
    case False
    then have "i \<noteq> j"
      using "1.prems"(1) by (auto simp: colorStep_breaks)
    then have lt: "i < j" "i < k"
      using "1.prems" by simp_all
    have "triggers cv frame (lastCentroids (snd (colorStep cv frame i s))) j
      = triggers cv frame (lastCentroids s) j"
      using lt by (intro triggers_cong colorStep_other) simp
    then have "triggers cv frame (lastCentroids (snd (colorStep cv frame i s))) j"
      using "1.prems"(1) by simp
    then have "lastCentroids (snd (colorLoop cv frame (i + 1) (snd (colorStep cv frame i s)))) ! k
      = lastCentroids (snd (colorStep cv frame i s)) ! k"
      using "1.IH" [OF inr False] lt "1.prems" by simp
    then show ?thesis
      using inr False lt
      by (subst colorLoop.simps) (simp add: colorStep_other)
  qed
qed

lemma colorLoop_before_trigger:
  "triggers cv f (lastCentroids s) j \<Longrightarrow> j < length colorRanges \<Longrightarrow>
    \<forall>k. i \<le> k \<and> k < j \<longrightarrow> \<not> triggers cv f (lastCentroids s) k \<Longrightarrow>
    i \<le> k \<Longrightarrow> k < j \<Longrightarrow> k < length (lastCentroids s) \<Longrightarrow> 0 < m00 (colorMoments cv f k) \<Longrightarrow>
    lastCentroids (snd (colorLoop cv f i s)) ! k = centroid (colorMoments cv f k)"
proof (induction cv f i s rule: colorLoop.induct)
  case (1 cv frame i s)
  let ?s1 = "snd (colorStep cv frame i s)"
  have ij: "i < j" and inr: "i < length colorRanges"
    using "1.prems" by simp_all
  have nt: "\<not> fst (colorStep cv frame i s)"
    using "1.prems"(3) ij by (simp add: colorStep_breaks)
  have same: "triggers cv frame (lastCentroids ?s1) n = triggers cv frame (lastCentroids s) n"
    if "i < n" for n
    using that by (intro triggers_cong colorStep_other) simp
  have unfold: "colorLoop cv frame i s = colorLoop cv frame (i + 1) ?s1"
    using inr nt by (subst colorLoop.simps) simp
  show ?case
  proof (cases "k = i")
    case True
    have "lastCentroids (snd (colorLoop cv frame (i + 1) ?s1)) ! i = lastCentroids ?s1 ! i"
      by (rule colorLoop_below) simp
    also have "\<dots> = centroid (colorMoments cv frame i)"
      using "1.prems" nt True by (simp add: colorStep_centroids colorStep_breaks)
    finally show ?thesis
      using True unfold by simp
  next
    case False
    then have ik: "i + 1 \<le> k"
      using "1.prems" by simp
    have "lastCentroids (snd (colorLoop cv frame (i + 1) ?s1)) ! k
        = centroid (colorMoments cv frame k)"
    proof (rule "1.IH" [OF inr nt _ "1.prems"(2) _ ik "1.prems"(5) _ "1.prems"(7)])
      show "triggers cv frame (lastCentroids ?s1) j"
        using "1.prems"(1) same [OF ij] by simp
      show "\<forall>n. i + 1 \<le> n \<and> n < j \<longrightarrow> \<not> triggers cv frame (lastCentroids ?s1) n"
        using "1.prems"(3) same by simp
      show "k < length (lastCentroids ?s1)"
        using "1.prems"(6) by (simp add: colorStep_centroids)
    qed
    then show ?thesis
      using unfold by simp
  qed
qed

section \<open>The concrete scenes, evaluated\<close>

lemma triggers_code [code]:
  "triggers cv frame lc i =
    (m00 (colorMoments cv frame i) > 0 \<and> moved (centroid (colorMoments cv frame i)) (lc ! i))"
  by (auto simp: triggers_def moved_def)

lemma momentsA:
  "map (colorMoments refcv frameA) [0..<6] =
    [blob 3 3, blob 0 0, blob 0 0, blob 5 25, blob 0 0, blob 0 0]"
  by code_simp

lemma momentsB:
  "map (colorMoments refcv frameB) [0..<6] =
    [blob 3 120, blob 0 0, blob 0 0, blob 5 180, blob 0 0, blob 0 0]"
  by code_simp

lemma momentsC: "colorMoments refcv frameC 0 = blob 5 155"
  by code_simp

lemma momentsDark:
  "map (colorMoments refcv frameDark) [0..<6] =
    [blob 0 0, blob 0 0, blob 0 0, blob 0 0, blob 0 0, blob 0 0]"
  by code_simp

lemma momentsR1:
  "map (colorMoments refcv frameR1) [0..<6] =
    [blob 0 0, blob 8 88, blob 3 3, blob 0 0, blob 0 0, blob 0 0]"
  by code_simp

lemma momentsR2:
  "map (colorMoments refcv frameR2) [0..<6] =
    [blob 0 0, blob 8 181, blob 3 96, blob 0 0, blob 0 0, blob 0 0]"
  by code_simp

lemma nth_of_map:
  assumes "map f [0..<6] = xs" "i < 6"
  shows "f i = xs ! i"
proof -
  have "map f [0..<6] ! i = f i"
    using assms(2) by simp
  with assms(1) show ?thesis by simp
qed

lemma momsA:
  "i < 6 \<Longrightarrow> colorMoments refcv frameA i
    = [blob 3 3, blob 0 0, blob 0 0, blob 5 25, blob 0 0, blob 0 0] ! i"
  by (rule nth_of_map [OF momentsA])

lemma momsB:
  "i < 6 \<Longrightarrow> colorMoments refcv frameB i
    = [blob 3 120, blob 0 0, blob 0 0, blob 5 180, blob 0 0, blob 0 0] ! i"
  by (rule nth_of_map [OF momentsB])

lemma momsDark:
  "i < 6 \<Longrightarrow> colorMoments refcv frameDark i
    = [blob 0 0, blob 0 0, blob 0 0, blob 0 0, blob 0 0, blob 0 0] ! i"
  by (rule nth_of_map [OF momentsDark])

lemma momsR1:
  "i < 6 \<Longrightarrow> colorMoments refcv frameR1 i
    = [blob 0 0, blob 8 88, blob 3 3, blob 0 0, blob 0 0, blob 0 0] ! i"
  by (rule nth_of_map [OF momentsR1])

lemma momsR2:
  "i < 6 \<Longrightarrow> colorMoments refcv frameR2 i
    = [blob 0 0, blob 8 181, blob 3 96, blob 0 0, blob 0 0, blob 0 0] ! i"
  by (rule nth_of_map [OF momentsR2])

lemma six_invalid: "replicate 6 p = [p, p, p, p, p, p]"
  by (simp add: numeral_eq_Suc)

lemma refcv_empty: "empty refcv f = (concat f = [])"
  by (simp add: refcv_def)

lemmas run_simps =
  colorLoop.simps colorStep_def centroid_def moved_code minus_pt_def invalid_def blob_def
  startRecording_def startCycle_def initial_def length_colorRanges detectionAttempt_def
  open_writer_def six_invalid

lemma stateA_eq:
  "stateA =
    \<lparr>lastCentroids = [(1, 0), (-1, -1), (-1, -1), (5, 0), (-1, -1), (-1, -1)],
     lastSnapshot = 0, isRecording = False, recordingFrames = 0,
     writer = \<lparr>isOpened = False, written = []\<rparr>,
     out = [''Press Enter to start one detection/recording cycle...'']\<rparr>"
  by (simp add: stateA_def run_simps momsA)

lemma stateR_eq:
  "stateR =
    \<lparr>lastCentroids = [(-1, -1), (11, 0), (1, 0), (-1, -1), (-1, -1), (-1, -1)],
     lastSnapshot = 0, isRecording = False, recordingFrames = 0,
     writer = \<lparr>isOpened = False, written = []\<rparr>,
     out = [''Press Enter to start one detection/recording cycle...'']\<rparr>"
  by (simp add: stateR_def run_simps momsR1)

lemma stateQ_eq:
  "stateQ =
    \<lparr>lastCentroids = [(-1, -1), (-1, -1), (-1, -1), (-1, -1), (-1, -1), (-1, -1)],
     lastSnapshot = 100, isRecording = False, recordingFrames = 0,
     writer = \<lparr>isOpened = False, written = []\<rparr>,
     out = [''Press Enter to start one detection/recording cycle...'']\<rparr>"
  by (simp add: stateQ_def run_simps momsDark)

section \<open>One pass of the inner loop\<close>

lemma state_of_pollKey:
  "lastCentroids (state_of (pollKey key s)) = lastCentroids s"
  "lastSnapshot (state_of (pollKey key s)) = lastSnapshot s"
  "isRecording (state_of (pollKey key s)) = isRecording s"
  "recordingFrames (state_of (pollKey key s)) = recordingFrames s"
  "written (writer (state_of (pollKey key s))) = written (writer s)"
  "out (state_of (pollKey key s)) = out s"
  by (simp_all add: pollKey_def release_def)

lemma writeAndStop_idle: "\<not> isRecording s \<Longrightarrow> writeAndStop f key s = pollKey key s"
  by (simp add: writeAndStop_def)

lemma iteration_recording:
  "isRecording s \<Longrightarrow> \<not> empty cv f \<Longrightarrow> iteration cv s (f, now, key) = writeAndStop f key s"
  by (simp add: iteration_def detectionDue_def)

lemma detectionAttempt_alt:
  "detectionAttempt cv f now s =
    (if fst (colorLoop cv f 0 s) then snd (colorLoop cv f 0 s)
     else (snd (colorLoop cv f 0 s))\<lparr>lastSnapshot := now\<rparr>)"
  by (simp add: detectionAttempt_def case_prod_beta)

lemma detectionAttempt_centroids:
  "lastCentroids (detectionAttempt cv f now s) = lastCentroids (snd (colorLoop cv f 0 s))"
  by (simp add: detectionAttempt_alt)

lemma recording_pass:
  assumes "isRecording s" "isOpened (writer s)" "recordingFrames s + 1 < maxRecordingFrames"
    "\<not> empty cv f" "key \<noteq> 27"
  shows "iteration cv s (f, now, key)
    = Continue (s\<lparr>writer := (writer s)\<lparr>written := written (writer s) @ [f]\<rparr>,
                  recordingFrames := recordingFrames s + 1\<rparr>)"
  using assms
  by (simp add: iteration_recording writeAndStop_def write_frame_def pollKey_def)

lemma recording_last:
  assumes "isRecording s" "isOpened (writer s)" "maxRecordingFrames \<le> recordingFrames s + 1"
    "\<not> empty cv f"
  shows "iteration cv s (f, now, key)
    = Break (s\<lparr>writer := \<lparr>isOpened = False, written = written (writer s) @ [f]\<rparr>,
               recordingFrames := recordingFrames s + 1, isRecording := False,
               out := out s @ [''Stopped recording after one clip.'']\<rparr>)"
  using assms
  by (simp add: iteration_recording writeAndStop_def write_frame_def release_def)

lemma recording_run:
  assumes "isRecording s" "isOpened (writer s)"
    "recordingFrames s + int (length xs) < maxRecordingFrames"
    "\<forall>x\<in>set xs. \<not> empty cv (fst x) \<and> snd (snd x) \<noteq> 27"
  shows "innerLoop cv s (xs @ rest)
    = innerLoop cv
        (s\<lparr>writer := (writer s)\<lparr>written := written (writer s) @ map fst xs\<rparr>,
           recordingFrames := recordingFrames s + int (length xs)\<rparr>) rest"
  using assms
proof (induction xs arbitrary: s)
  case Nil
  then show ?case by simp
next
  case (Cons x xs)
  obtain f now key where x: "x = (f, now, key)"
    by (cases x) auto
  let ?s1 = "s\<lparr>writer := (writer s)\<lparr>written := written (writer s) @ [f]\<rparr>,
                recordingFrames := recordingFrames s + 1\<rparr>"
  have step: "iteration cv s x = Continue ?s1"
    unfolding x using Cons.prems by (intro recording_pass) (auto simp: x)
  have "innerLoop cv ?s1 (xs @ rest)
    = innerLoop cv
        (?s1\<lparr>writer := (writer ?s1)\<lparr>written := written (writer ?s1) @ map fst xs\<rparr>,
             recordingFrames := recordingFrames ?s1 + int (length xs)\<rparr>) rest"
    using Cons.prems by (intro Cons.IH) auto
  then show ?case
    using step by (simp add: x add.assoc)
qed

lemma session_safety:
  assumes "isRecording s" "isOpened (writer s)"
    "int (length (written (writer s))) = recordingFrames s"
    "recordingFrames s < maxRecordingFrames"
  shows "int (length (written (writer (final (innerLoop cv s ys))))) \<le> maxRecordingFrames
    \<and> (\<forall>s'. innerLoop cv s ys = ClipDone s' \<longrightarrow>
          int (length (written (writer s'))) = maxRecordingFrames
          \<and> \<not> isOpened (writer s') \<and> \<not> isRecording s')"
  using assms
proof (induction ys arbitrary: s)
  case Nil
  then show ?case by simp
next
  case (Cons y ys)
  obtain f now key where y: "y = (f, now, key)"
    by (cases y) auto
  show ?case
  proof (cases "empty cv f")
    case True
    then show ?thesis
      using Cons.prems by (simp add: y iteration_def)
  next
    case ne: False
    show ?thesis
    proof (cases "maxRecordingFrames \<le> recordingFrames s + 1")
      case True
      then show ?thesis
        using Cons.prems ne recording_last [of s cv f now key]
        by (simp add: y)
    next
      case below: False
      show ?thesis
      proof (cases "key = 27")
        case True
        then show ?thesis
          using Cons.prems ne below
          by (simp add: y iteration_recording writeAndStop_def write_frame_def pollKey_def
              release_def)
      next
        case False
        let ?s1 = "s\<lparr>writer := (writer s)\<lparr>written := written (writer s) @ [f]\<rparr>,
                      recordingFrames := recordingFrames s + 1\<rparr>"
        have step: "iteration cv s y = Continue ?s1"
          unfolding y using Cons.prems ne below False by (intro recording_pass) auto
        have "int (length (written (writer (final (innerLoop cv ?s1 ys))))) \<le> maxRecordingFrames
          \<and> (\<forall>s'. innerLoop cv ?s1 ys = ClipDone s' \<longrightarrow>
                int (length (written (writer s'))) = maxRecordingFrames
                \<and> \<not> isOpened (writer s') \<and> \<not> isRecording s')"
          using Cons.prems below by (intro Cons.IH) auto
        then show ?thesis
          using step by simp
      qed
    qed
  qed
qed

lemma round_frames: "round (writeFps * of_int recordDurationS) = maxRecordingFrames"
  by (simp add: maxRecordingFrames_450 writeFps_def recordDurationS_def)

lemma idle_pass:
  assumes "\<not> detectionDue s now" "\<not> isRecording s" "\<not> empty cv f"
  shows "iteration cv s (f, now, key) = pollKey key s"
  using assms by (simp add: iteration_def writeAndStop_idle)

lemma idle_run:
  assumes "\<not> isRecording s"
    "\<forall>x\<in>set xs. \<not> empty cv (fst x) \<and> \<not> detectionDue s (fst (snd x)) \<and> snd (snd x) \<noteq> 27"
  shows "innerLoop cv s (xs @ rest) = innerLoop cv s rest"
  using assms
proof (induction xs)
  case Nil
  then show ?case by simp
next
  case (Cons x xs)
  obtain f now key where x: "x = (f, now, key)"
    by (cases x) auto
  have "iteration cv s x = Continue s"
    using Cons.prems by (simp add: x idle_pass pollKey_def)
  then show ?case
    using Cons by simp
qed

lemma pollKey_length: "length (lastCentroids (state_of (pollKey key s))) = length (lastCentroids s)"
  by (simp add: state_of_pollKey)

lemma writeAndStop_length:
  "length (lastCentroids (state_of (writeAndStop f key s))) = length (lastCentroids s)"
  by (simp add: writeAndStop_def Let_def state_of_pollKey)

lemma iteration_length:
  "length (lastCentroids (state_of (iteration cv s inp))) = length (lastCentroids s)"
  by (cases inp)
    (simp add: iteration_def writeAndStop_length detectionAttempt_centroids colorLoop_length)

lemma innerLoop_length:
  "length (lastCentroids (final (innerLoop cv s inps))) = length (lastCentroids s)"
proof (induction inps arbitrary: s)
  case Nil
  then show ?case by simp
next
  case (Cons inp inps)
  show ?case
    using iteration_length [of cv s inp] Cons.IH
    by (cases "iteration cv s inp") simp_all
qed

lemma mainLoop_length:
  "length (lastCentroids (final (mainLoop cv s cycles))) = length (lastCentroids s)"
proof (induction cycles arbitrary: s)
  case Nil
  then show ?case by simp
next
  case (Cons c cycles)
  obtain t0 inps where c: "c = (t0, inps)"
    by (cases c) auto
  have "length (lastCentroids (final (innerLoop cv (startCycle s t0) inps))) = length (lastCentroids s)"
    by (simp add: innerLoop_length startCycle_def)
  then show ?case
    using Cons.IH by (cases "innerLoop cv (startCycle s t0) inps") (simp_all add: c)
qed

lemma main_length:
  "length (lastCentroids (final (main cv opened cycles))) = length colorRanges"
  by (simp add: main_def mainLoop_length) (simp add: initial_def)

section \<open>The claims\<close>

subsection \<open>C1\<close>

text \<open>
  Claim C1. The loop over the colours visits the entries of the colour table in their
  declaration order, and index 1 joins the two red ranges. Index 2 is visited as well, with
  the upper red range alone and a stored centroid of its own, so the two red ranges are not
  one single entry. The run below shows it: in the first red scene and the second one the
  lower red blob stays and the upper red blob moves from the left border to the right
  border. The centroid of the joined red mask moves from column 11 to column 22, which is
  not further than the threshold, so index 1 does not start a recording; the centroid of
  the upper red range alone moves from column 1 to column 32, and index 2 starts it.
\<close>

theorem red_part2_tracked_separately:
  "colorMask frameR2 2 = inRange frameR2 (160, 100, 50) (179, 255, 255)
    \<and> lastCentroids stateR = [invalid, (11, 0), (1, 0), invalid, invalid, invalid]
    \<and> centroid (colorMoments refcv frameR2 1) = (22, 0)
    \<and> centroid (colorMoments refcv frameR2 2) = (32, 0)
    \<and> \<not> triggers refcv frameR2 (lastCentroids stateR) 1
    \<and> triggers refcv frameR2 (lastCentroids stateR) 2
    \<and> colorLoop refcv frameR2 0 stateR
        = (True, startRecording frameR2
            (stateR\<lparr>lastCentroids := [invalid, (22, 0), (1, 0), invalid, invalid, invalid]\<rparr>))"
proof -
  have "colorMask frameR2 2 = inRange frameR2 (160, 100, 50) (179, 255, 255)"
    by (simp add: colorMask_def colorRanges_def)
  moreover have "centroid (colorMoments refcv frameR2 1) = (22, 0)"
    "centroid (colorMoments refcv frameR2 2) = (32, 0)"
    using momsR2 [of 1] momsR2 [of 2] by (simp_all add: blob_def centroid_def)
  moreover have "\<not> triggers refcv frameR2 (lastCentroids stateR) 1"
    "triggers refcv frameR2 (lastCentroids stateR) 2"
    using momsR2 [of 1] momsR2 [of 2]
    by (simp_all add: triggers_code stateR_eq run_simps)
  moreover have "colorLoop refcv frameR2 0 stateR
      = (True, startRecording frameR2
          (stateR\<lparr>lastCentroids := [invalid, (22, 0), (1, 0), invalid, invalid, invalid]\<rparr>))"
    by (simp add: stateR_eq run_simps momsR2)
  ultimately show ?thesis
    by (simp add: stateR_eq invalid_def)
qed

subsection \<open>C2\<close>

text \<open>
  Claim C2, as the program has it. After a detection attempt at time \<open>t\<close> that found no
  motion the stored time is \<open>t\<close>, and a later pass at time \<open>now\<close> makes a detection
  attempt exactly when \<open>now - t\<close> is at least the quiet period. In a pass with less than
  the quiet period elapsed nothing but the quit key is looked at, and a run of such passes
  leaves the state as it is. In a pass with exactly the quiet period elapsed the attempt
  is made.
\<close>

theorem quiet_period_inclusive:
  assumes "detectionDue s t" "\<not> fst (colorLoop cv f 0 s)"
  shows "lastSnapshot (detectionAttempt cv f t s) = t
    \<and> (detectionDue (detectionAttempt cv f t s) now \<longleftrightarrow> quietPeriod \<le> now - t)
    \<and> (now - t < quietPeriod \<and> \<not> empty cv f' \<longrightarrow>
          iteration cv (detectionAttempt cv f t s) (f', now, key)
            = pollKey key (detectionAttempt cv f t s))
    \<and> (quietPeriod \<le> now - t \<and> \<not> empty cv f' \<longrightarrow>
          iteration cv (detectionAttempt cv f t s) (f', now, key)
            = writeAndStop f' key (detectionAttempt cv f' now (detectionAttempt cv f t s)))
    \<and> ((\<forall>x\<in>set xs. \<not> empty cv (fst x) \<and> fst (snd x) - t < quietPeriod \<and> snd (snd x) \<noteq> 27) \<longrightarrow>
          innerLoop cv (detectionAttempt cv f t s) (xs @ rest)
            = innerLoop cv (detectionAttempt cv f t s) rest)"
proof -
  let ?s = "detectionAttempt cv f t s"
  have idle: "\<not> isRecording s"
    using assms(1) by (simp add: detectionDue_def)
  have s': "lastSnapshot ?s = t" "\<not> isRecording ?s"
    using assms(2) idle by (simp_all add: detectionAttempt_alt colorLoop_fields)
  have due: "detectionDue ?s n \<longleftrightarrow> quietPeriod \<le> n - t" for n
    using s' by (simp add: detectionDue_code)
  have wait: "iteration cv ?s (f', now, key) = pollKey key ?s"
    if "now - t < quietPeriod" "\<not> empty cv f'"
    using that s' due [of now] by (intro idle_pass) simp_all
  have fire: "iteration cv ?s (f', now, key) = writeAndStop f' key (detectionAttempt cv f' now ?s)"
    if "quietPeriod \<le> now - t" "\<not> empty cv f'"
    using that due [of now] by (simp add: iteration_def)
  have run: "innerLoop cv ?s (xs @ rest) = innerLoop cv ?s rest"
    if "\<forall>x\<in>set xs. \<not> empty cv (fst x) \<and> fst (snd x) - t < quietPeriod \<and> snd (snd x) \<noteq> 27"
    using that s' due by (intro idle_run) auto
  show ?thesis
    using s' due wait fire run by simp
qed

theorem quiet_period_inclusive_witness:
  "detectionDue (startCycle initial 100) 100
    \<and> \<not> fst (colorLoop refcv frameDark 0 (startCycle initial 100))
    \<and> \<not> empty refcv frameA \<and> \<not> empty refcv frameB
    \<and> (105 :: int) - 100 < quietPeriod \<and> (109 :: int) - 100 < quietPeriod
    \<and> quietPeriod \<le> (110 :: int) - 100
    \<and> iteration refcv stateQ (frameA, 109, - 1) = Continue stateQ
    \<and> iteration refcv stateQ (frameA, 110, - 1)
        = writeAndStop frameA (- 1) (detectionAttempt refcv frameA 110 stateQ)
    \<and> innerLoop refcv stateQ ([(frameA, 105, - 1), (frameB, 109, - 1)] @ [(frameA, 110, - 1)])
        = innerLoop refcv stateQ [(frameA, 110, - 1)]"
proof -
  have h1: "detectionDue (startCycle initial 100) 100"
    by (simp add: detectionDue_code quietPeriod_def startCycle_def)
  have h2: "\<not> fst (colorLoop refcv frameDark 0 (startCycle initial 100))"
    by (simp add: run_simps momsDark)
  have h3: "\<not> empty refcv frameA" "\<not> empty refcv frameB"
    by (simp_all add: refcv_empty frameA_def frameB_def)
  have h4: "\<forall>x\<in>set [(frameA, 105 :: int, - 1 :: int), (frameB, 109, - 1)].
      \<not> empty refcv (fst x) \<and> fst (snd x) - 100 < quietPeriod \<and> snd (snd x) \<noteq> 27"
    using h3 by (simp add: quietPeriod_def)
  have q: "(109 :: int) - 100 < quietPeriod" "quietPeriod \<le> (110 :: int) - 100"
    by (simp_all add: quietPeriod_def)
  have a: "iteration refcv stateQ (frameA, 109, - 1) = pollKey (- 1) stateQ"
    using quiet_period_inclusive [OF h1 h2, of 109 frameA "- 1" "[]" "[]"] q h3
    unfolding stateQ_def by blast
  have b: "iteration refcv stateQ (frameA, 110, - 1)
      = writeAndStop frameA (- 1) (detectionAttempt refcv frameA 110 stateQ)"
    using quiet_period_inclusive [OF h1 h2, of 110 frameA "- 1" "[]" "[]"] q h3
    unfolding stateQ_def by blast
  have c: "innerLoop refcv stateQ ([(frameA, 105, - 1), (frameB, 109, - 1)] @ [(frameA, 110, - 1)])
      = innerLoop refcv stateQ [(frameA, 110, - 1)]"
    using quiet_period_inclusive [OF h1 h2, of 110 frameA "- 1"
        "[(frameA, 105, - 1), (frameB, 109, - 1)]" "[(frameA, 110, - 1)]"] h4
    unfolding stateQ_def by blast
  show ?thesis
    using h1 h2 h3 q a b c by (simp add: pollKey_def quietPeriod_def)
qed

text \<open>
  Claim C2 as it is worded, with the boundary excluded, fails: a cycle starts at time 100,
  its first pass on the dark frame finds no motion, and the pass at time 110, when exactly
  the quiet period of 10 seconds has elapsed, makes a detection attempt: it stores the
  centroids of scene A and the time 110.
\<close>

theorem quiet_boundary_fires:
  "detectionDue (startCycle initial 100) 100
    \<and> \<not> fst (colorLoop refcv frameDark 0 (startCycle initial 100))
    \<and> stateQ = detectionAttempt refcv frameDark 100 (startCycle initial 100)
    \<and> lastSnapshot stateQ = 100
    \<and> 110 - lastSnapshot stateQ = quietPeriod
    \<and> detectionDue stateQ 110
    \<and> iteration refcv stateQ (frameA, 110, - 1)
        = Continue (stateQ\<lparr>lastCentroids := [(1, 0), invalid, invalid, (5, 0), invalid, invalid],
                           lastSnapshot := 110\<rparr>)"
proof -
  have "detectionDue (startCycle initial 100) 100"
    by (simp add: detectionDue_code quietPeriod_def startCycle_def)
  moreover have "\<not> fst (colorLoop refcv frameDark 0 (startCycle initial 100))"
    by (simp add: run_simps momsDark)
  moreover have "detectionDue stateQ 110"
    by (simp add: detectionDue_code quietPeriod_def stateQ_eq)
  moreover have "detectionAttempt refcv frameA 110 stateQ
      = stateQ\<lparr>lastCentroids := [(1, 0), invalid, invalid, (5, 0), invalid, invalid],
               lastSnapshot := 110\<rparr>"
    by (simp add: stateQ_eq run_simps momsA)
  moreover have "\<not> empty refcv frameA"
    by (simp add: refcv_empty frameA_def)
  moreover have "\<not> isRecording stateQ" "lastSnapshot stateQ = 100"
    by (simp_all add: stateQ_eq)
  ultimately show ?thesis
    by (simp add: iteration_def writeAndStop_idle pollKey_def stateQ_def quietPeriod_def)
qed

subsection \<open>C3\<close>

text \<open>
  Claim C3. For a colour with a blob in the frame (a valid new centroid) and a valid stored
  centroid, the body of the loop declares motion if and only if the Euclidean distance
  between the two centroids is greater than the threshold; at a distance equal to the
  threshold it does not. The whole attempt declares motion if and only if some colour of
  the table has a valid new centroid, a valid stored one and a distance greater than the
  threshold.
\<close>

theorem threshold_strict:
  assumes "m00 (colorMoments cv f i) > 0" "lastCentroids s ! i \<noteq> invalid"
  shows "(fst (colorStep cv f i s) \<longleftrightarrow>
        norm_pt (minus_pt (centroid (colorMoments cv f i)) (lastCentroids s ! i)) > motionThreshold)
    \<and> (norm_pt (minus_pt (centroid (colorMoments cv f i)) (lastCentroids s ! i)) = motionThreshold
        \<longrightarrow> \<not> fst (colorStep cv f i s))
    \<and> (fst (colorLoop cv f 0 s) \<longleftrightarrow>
        (\<exists>j < length colorRanges. triggers cv f (lastCentroids s) j))"
  using assms by (auto simp: colorStep_breaks triggers_def colorLoop_moved_iff)

theorem threshold_strict_witness:
  "m00 (colorMoments refcv frameC 0) > 0 \<and> lastCentroids stateA ! 0 \<noteq> invalid
    \<and> norm_pt (minus_pt (centroid (colorMoments refcv frameC 0)) (lastCentroids stateA ! 0))
        = motionThreshold
    \<and> \<not> fst (colorStep refcv frameC 0 stateA)"
proof -
  have new: "m00 (colorMoments refcv frameC 0) > 0"
    and old: "lastCentroids stateA ! 0 \<noteq> invalid"
    by (simp_all add: momentsC blob_def stateA_eq invalid_def)
  have "norm_pt (minus_pt (centroid (colorMoments refcv frameC 0)) (lastCentroids stateA ! 0))
      = motionThreshold"
    by (simp add: momentsC blob_def stateA_eq centroid_def minus_pt_def norm_pt_def
        motionThreshold_def)
  then show ?thesis
    using threshold_strict [OF new old] new old by simp
qed

subsection \<open>C4\<close>

text \<open>
  Claim C4. A session starts in the pass that detects motion on frame \<open>f\<close>. When the camera
  supplies the further frames and the quit key is not pressed before the last of them, the
  inner loop ends with \<^verbatim>\<open>break\<close> after it has written exactly the 450 frames
  \<open>f\<close>, \<open>xs\<close>, \<open>fl\<close> to the sink, with the sink closed and the controller idle; 450 is
  \<open>round (writeFps * recordDurationS)\<close>. Whatever the inputs \<open>ys\<close> after the start, the loop
  leaves through \<^verbatim>\<open>break\<close> only with exactly that many frames written, the sink closed
  and the controller idle, and the sink never holds more than that many frames.
\<close>

theorem session_frame_bound:
  assumes "\<not> empty cv f" "detectionDue s now" "fst (colorLoop cv f 0 s)"
  shows "(key \<noteq> 27 \<and> int (length xs) = maxRecordingFrames - 2
          \<and> (\<forall>x\<in>set xs. \<not> empty cv (fst x) \<and> snd (snd x) \<noteq> 27) \<and> \<not> empty cv fl
        \<longrightarrow> innerLoop cv s ((f, now, key) # xs @ (fl, nl, kl) # rest)
            = ClipDone ((snd (colorLoop cv f 0 s))
                \<lparr>writer := \<lparr>isOpened = False, written = f # map fst xs @ [fl]\<rparr>,
                  recordingFrames := maxRecordingFrames, isRecording := False,
                  out := out s @ [''Started recording due to motion.'',
                                  ''Stopped recording after one clip.'']\<rparr>)
          \<and> int (length (f # map fst xs @ [fl])) = round (writeFps * of_int recordDurationS))
    \<and> (\<forall>s'. innerLoop cv s ((f, now, key) # ys) = ClipDone s' \<longrightarrow>
          int (length (written (writer s'))) = round (writeFps * of_int recordDurationS)
          \<and> \<not> isOpened (writer s') \<and> \<not> isRecording s')
    \<and> int (length (written (writer (final (innerLoop cv s ((f, now, key) # ys))))))
        \<le> round (writeFps * of_int recordDurationS)
    \<and> round (writeFps * of_int recordDurationS) = maxRecordingFrames
    \<and> maxRecordingFrames = 450"
proof -
  let ?s0 = "snd (colorLoop cv f 0 s)"
  let ?s1 = "?s0\<lparr>writer := \<lparr>isOpened = True, written = [f]\<rparr>, recordingFrames := 1\<rparr>"
  have s0: "isRecording ?s0" "recordingFrames ?s0 = 0" "writer ?s0 = open_writer"
    "out ?s0 = out s @ [''Started recording due to motion.'']"
    using assms(3) by (simp_all add: colorLoop_fields)
  have first: "iteration cv s (f, now, key) = pollKey key ?s1"
  proof -
    have "iteration cv s (f, now, key) = writeAndStop f key ?s0"
      using assms by (simp add: iteration_def detectionAttempt_alt)
    also have "\<dots> = pollKey key ?s1"
      using s0 by (simp add: writeAndStop_def write_frame_def open_writer_def maxRecordingFrames_450)
    finally show ?thesis .
  qed
  have s1: "isRecording ?s1" "isOpened (writer ?s1)"
    "int (length (written (writer ?s1))) = recordingFrames ?s1"
    "recordingFrames ?s1 < maxRecordingFrames"
    using s0 by (simp_all add: maxRecordingFrames_450)
  have live: "innerLoop cv s ((f, now, key) # xs @ (fl, nl, kl) # rest)
      = ClipDone (?s0
          \<lparr>writer := \<lparr>isOpened = False, written = f # map fst xs @ [fl]\<rparr>,
            recordingFrames := maxRecordingFrames, isRecording := False,
            out := out s @ [''Started recording due to motion.'',
                            ''Stopped recording after one clip.'']\<rparr>)"
    if k: "key \<noteq> 27" and len: "int (length xs) = maxRecordingFrames - 2"
      and ok: "\<forall>x\<in>set xs. \<not> empty cv (fst x) \<and> snd (snd x) \<noteq> 27" and last: "\<not> empty cv fl"
  proof -
    let ?s2 = "?s1\<lparr>writer := (writer ?s1)\<lparr>written := written (writer ?s1) @ map fst xs\<rparr>,
                  recordingFrames := recordingFrames ?s1 + int (length xs)\<rparr>"
    have "innerLoop cv s ((f, now, key) # xs @ (fl, nl, kl) # rest)
        = innerLoop cv ?s1 (xs @ (fl, nl, kl) # rest)"
      using first k by (simp add: pollKey_def)
    also have "\<dots> = innerLoop cv ?s2 ((fl, nl, kl) # rest)"
      using s1 len ok by (intro recording_run) simp_all
    also have "iteration cv ?s2 (fl, nl, kl)
        = Break (?s2\<lparr>writer := \<lparr>isOpened = False, written = written (writer ?s2) @ [fl]\<rparr>,
                   recordingFrames := recordingFrames ?s2 + 1, isRecording := False,
                   out := out ?s2 @ [''Stopped recording after one clip.'']\<rparr>)"
      using s1 len last by (intro recording_last) simp_all
    then have "innerLoop cv ?s2 ((fl, nl, kl) # rest)
        = ClipDone (?s0
          \<lparr>writer := \<lparr>isOpened = False, written = f # map fst xs @ [fl]\<rparr>,
            recordingFrames := maxRecordingFrames, isRecording := False,
            out := out s @ [''Started recording due to motion.'',
                            ''Stopped recording after one clip.'']\<rparr>)"
      using s0 len by simp
    finally show ?thesis .
  qed
  have count: "int (length (f # map fst xs @ [fl])) = maxRecordingFrames"
    if "int (length xs) = maxRecordingFrames - 2"
    using that by simp
  have safe: "int (length (written (writer (final (innerLoop cv s ((f, now, key) # ys))))))
        \<le> maxRecordingFrames
      \<and> (\<forall>s'. innerLoop cv s ((f, now, key) # ys) = ClipDone s' \<longrightarrow>
          int (length (written (writer s'))) = maxRecordingFrames
          \<and> \<not> isOpened (writer s') \<and> \<not> isRecording s')"
  proof (cases "key = 27")
    case True
    then show ?thesis
      using first by (simp add: pollKey_def release_def maxRecordingFrames_450)
  next
    case False
    then have "innerLoop cv s ((f, now, key) # ys) = innerLoop cv ?s1 ys"
      using first by (simp add: pollKey_def)
    then show ?thesis
      using session_safety [OF s1, of cv ys] by simp
  qed
  show ?thesis
    using live count safe by (simp add: round_frames maxRecordingFrames_450)
qed

theorem session_frame_bound_witness:
  "\<not> empty refcv frameB \<and> detectionDue stateA 10 \<and> fst (colorLoop refcv frameB 0 stateA)
    \<and> int (length (replicate 448 (frameC, 11 :: int, - 1 :: int))) = maxRecordingFrames - 2
    \<and> \<not> empty refcv frameC \<and> \<not> empty refcv frameA
    \<and> written (writer (final (innerLoop refcv stateA
          ((frameB, 10, - 1) # replicate 448 (frameC, 11, - 1) @ [(frameA, 40, 27)]))))
        = frameB # replicate 448 frameC @ [frameA]"
proof -
  have h1: "\<not> empty refcv frameB"
    by (simp add: refcv_empty frameB_def)
  have h2: "detectionDue stateA 10"
    by (simp add: detectionDue_code quietPeriod_def stateA_eq)
  have h3: "fst (colorLoop refcv frameB 0 stateA)"
    by (simp add: stateA_eq run_simps momsB)
  have h4: "int (length (replicate 448 (frameC, 11 :: int, - 1 :: int))) = maxRecordingFrames - 2"
    by (simp add: maxRecordingFrames_450)
  have h5: "\<forall>x\<in>set (replicate 448 (frameC, 11 :: int, - 1 :: int)).
      \<not> empty refcv (fst x) \<and> snd (snd x) \<noteq> 27"
    by (simp add: refcv_empty frameC_def)
  have h6: "\<not> empty refcv frameA"
    by (simp add: refcv_empty frameA_def)
  show ?thesis
    using session_frame_bound [OF h1 h2 h3, of "- 1" "replicate 448 (frameC, 11, - 1)" frameA 40 27 "[]" "[]"]
      h1 h2 h3 h4 h5 h6
    by (simp add: refcv_empty frameC_def)
qed

subsection \<open>C5\<close>

text \<open>
  Claim C5. When two colours \<open>i < j\<close> of the table both have a valid new centroid, a valid
  stored centroid and a distance greater than the threshold in the same frame, the attempt
  declares motion and starts one session (one start message), and the stored centroid of
  \<open>j\<close>, as of every colour from \<open>i\<close> on, is what it was before the attempt. When \<open>i\<close> is
  the first such colour, the loop stops exactly there: the colours before \<open>i\<close> that have a
  blob were evaluated and hold their new centroid.
\<close>

theorem priority_short_circuit:
  assumes "i < j" "j < length colorRanges"
    "triggers cv f (lastCentroids s) i" "triggers cv f (lastCentroids s) j"
  shows "fst (colorLoop cv f 0 s)
    \<and> out (snd (colorLoop cv f 0 s)) = out s @ [''Started recording due to motion.'']
    \<and> lastCentroids (snd (colorLoop cv f 0 s)) ! j = lastCentroids s ! j
    \<and> lastCentroids (detectionAttempt cv f now s) ! j = lastCentroids s ! j
    \<and> (\<forall>k\<ge>i. lastCentroids (detectionAttempt cv f now s) ! k = lastCentroids s ! k)
    \<and> ((\<forall>k<i. \<not> triggers cv f (lastCentroids s) k)
          \<and> length (lastCentroids s) = length colorRanges \<longrightarrow>
        (\<forall>k<i. 0 < m00 (colorMoments cv f k) \<longrightarrow>
          lastCentroids (detectionAttempt cv f now s) ! k = centroid (colorMoments cv f k)))"
proof -
  have i: "i < length colorRanges"
    using assms by simp
  have mv: "fst (colorLoop cv f 0 s)"
    using assms(3) i by (auto simp: colorLoop_moved_iff)
  have later: "lastCentroids (snd (colorLoop cv f 0 s)) ! k = lastCentroids s ! k"
    if "i \<le> k" for k
    using colorLoop_after_trigger [OF assms(3) _ i that] by simp
  have earlier: "lastCentroids (snd (colorLoop cv f 0 s)) ! k = centroid (colorMoments cv f k)"
    if "\<forall>k<i. \<not> triggers cv f (lastCentroids s) k"
      "length (lastCentroids s) = length colorRanges" "k < i" "0 < m00 (colorMoments cv f k)"
    for k
    using that i by (intro colorLoop_before_trigger [OF assms(3) i]) simp_all
  show ?thesis
    using mv assms(1) later earlier
    by (simp add: colorLoop_fields detectionAttempt_centroids)
qed

theorem priority_short_circuit_witness:
  "(0::nat) < 3 \<and> 3 < length colorRanges
    \<and> triggers refcv frameB (lastCentroids stateA) 0
    \<and> triggers refcv frameB (lastCentroids stateA) 3
    \<and> lastCentroids (detectionAttempt refcv frameB 10 stateA) ! 3 = (5, 0)
    \<and> centroid (colorMoments refcv frameB 3) = (36, 0)"
proof -
  have blue: "triggers refcv frameB (lastCentroids stateA) 0"
    and green: "triggers refcv frameB (lastCentroids stateA) 3"
    by (simp_all add: triggers_code stateA_eq run_simps momsB)
  have "centroid (colorMoments refcv frameB 3) = (36, 0)"
    by (simp add: momsB blob_def centroid_def)
  then show ?thesis
    using priority_short_circuit [of 0 3 refcv frameB stateA 10] blue green
    by (simp add: length_colorRanges stateA_eq)
qed

subsection \<open>C6\<close>

text \<open>
  Claim C6. The reset at the start of a cycle makes every stored centroid invalid, and the
  test of the displacement fails for every new centroid when the stored one is invalid.
  So for every frame the colour loop on the reset state declares no motion, and the first
  pass of the cycle leaves the controller idle with nothing written to the sink.
\<close>

theorem first_attempt_immunity:
  assumes "length (lastCentroids s) = length colorRanges"
  shows "set (lastCentroids (startCycle s t0)) = {invalid}
    \<and> \<not> moved c invalid
    \<and> \<not> fst (colorLoop cv f 0 (startCycle s t0))
    \<and> \<not> isRecording (state_of (iteration cv (startCycle s t0) (f, now, key)))
    \<and> written (writer (state_of (iteration cv (startCycle s t0) (f, now, key)))) = []"
proof -
  let ?s = "startCycle s t0"
  have inv: "lastCentroids ?s ! j = invalid" if "j < length colorRanges" for j
    using that assms by (simp add: startCycle_def)
  have nm: "\<not> fst (colorLoop cv f 0 ?s)"
    using inv by (auto simp: colorLoop_moved_iff triggers_def)
  have idle: "\<not> isRecording ?s" "written (writer ?s) = []"
    by (simp_all add: startCycle_def)
  have att: "\<not> isRecording (detectionAttempt cv f now ?s)"
    "written (writer (detectionAttempt cv f now ?s)) = []"
    using nm idle by (simp_all add: detectionAttempt_alt colorLoop_fields)
  have "lastCentroids ?s = replicate 6 invalid"
    using assms by (simp add: startCycle_def length_colorRanges map_replicate_const)
  then have "set (lastCentroids ?s) = {invalid}"
    by simp
  moreover have "\<not> isRecording (state_of (iteration cv ?s (f, now, key)))"
    using idle att by (simp add: iteration_def writeAndStop_idle state_of_pollKey)
  moreover have "written (writer (state_of (iteration cv ?s (f, now, key)))) = []"
    using idle att by (simp add: iteration_def writeAndStop_idle state_of_pollKey)
  ultimately show ?thesis
    using nm by (simp add: moved_def)
qed

theorem first_attempt_immunity_witness:
  "length (lastCentroids stateA) = length colorRanges
    \<and> \<not> fst (colorLoop refcv frameB 0 (startCycle stateA 20))
    \<and> fst (colorLoop refcv frameB 0 stateA)"
  using first_attempt_immunity [of stateA 20 "(0, 0)" refcv frameB 20 "- 1"]
  by (simp add: stateA_eq run_simps momsB)

subsection \<open>C7\<close>

text \<open>
  Claim C7. A colour whose filtered mask is empty (\<open>m00 = 0\<close>) keeps its stored centroid
  through a detection attempt, and no attempt turns a valid stored centroid of any colour
  into the invalid one.
\<close>

theorem empty_mask_keeps_centroid:
  assumes "m00 (colorMoments cv f i) = 0"
  shows "lastCentroids (detectionAttempt cv f now s) ! i = lastCentroids s ! i
    \<and> (lastCentroids s ! j \<noteq> invalid \<longrightarrow> lastCentroids (detectionAttempt cv f now s) ! j \<noteq> invalid)"
  using assms colorLoop_empty_mask [of cv f i 0 s] colorLoop_valid_stays [of s j cv f 0]
  by (simp add: detectionAttempt_centroids)

theorem empty_mask_keeps_centroid_witness:
  "m00 (colorMoments refcv frameDark 0) = 0
    \<and> lastCentroids stateA ! 0 = (1, 0)
    \<and> lastCentroids (detectionAttempt refcv frameDark 10 stateA) ! 0 = (1, 0)"
  using empty_mask_keeps_centroid [of refcv frameDark 0 10 stateA 0]
  by (simp add: momsDark blob_def stateA_eq)

subsection \<open>C8\<close>

text \<open>
  Claim C8. On an empty frame the pass writes \<^verbatim>\<open>Camera disconnected!\<close> and returns 1 from
  \<^verbatim>\<open>main\<close> with the rest of the state as it was: the inner loop and \<^verbatim>\<open>main\<close> end
  with exit code 1 whatever inputs would follow, none of which is read.
\<close>

theorem empty_frame_fatal:
  fixes cv :: "'f cvlib"
  assumes "empty cv f"
  shows "iteration cv s (f, now, key) = Return 1 (s\<lparr>out := out s @ [''Camera disconnected!'']\<rparr>)
    \<and> innerLoop cv s ((f, now, key) # rest) = Exit 1 (s\<lparr>out := out s @ [''Camera disconnected!'']\<rparr>)
    \<and> main cv True ((t0, (f, now, key) # rest) # cycles)
        = Exit 1 ((startCycle initial t0)\<lparr>out :=
            out (startCycle (initial :: 'f state) t0) @ [''Camera disconnected!'']\<rparr>)"
  using assms by (simp add: iteration_def main_def)

theorem empty_frame_fatal_witness:
  "empty refcv []
    \<and> innerLoop refcv stateA (([], 5, 27) # [(frameB, 10, - 1)])
        = Exit 1 (stateA\<lparr>out := out stateA @ [''Camera disconnected!'']\<rparr>)"
  using empty_frame_fatal [of refcv "[]" stateA 5 27 "[(frameB, 10, - 1)]" 0 "[]"]
  by (simp add: refcv_empty)

subsection \<open>C9\<close>

text \<open>
  Claim C9. The mask of index 1 has the shape of the image, and its pixel is 255 when the
  image pixel lies in the lower or in the upper red range and 0 otherwise, whatever other
  range the pixel lies in.
\<close>

theorem red_mask_union:
  assumes "y < length hsv" "x < length (hsv ! y)"
  shows "colorMask hsv 1 ! y ! x =
      (if inBounds (hsv ! y ! x) (0, 100, 50) (10, 255, 255)
          \<or> inBounds (hsv ! y ! x) (160, 100, 50) (179, 255, 255)
       then 255 else 0)
    \<and> length (colorMask hsv 1) = length hsv
    \<and> length (colorMask hsv 1 ! y) = length (hsv ! y)"
  using assms
  by (simp add: colorMask_def bitwise_or_def inRange_def colorRanges_def)

theorem red_mask_union_witness:
  "0 < length frameA \<and> 0 < length (frameA ! 0)
    \<and> inBounds (frameA ! 0 ! 0) (lower (colorRanges ! 0)) (upper (colorRanges ! 0))
    \<and> colorMask frameA 0 ! 0 ! 0 = 255
    \<and> colorMask frameA 1 ! 0 ! 0 = 0"
proof -
  have size: "0 < length frameA" "0 < length (frameA ! 0)"
    by (simp_all add: frameA_def)
  have px: "frameA ! 0 ! 0 = px_blue"
    by (simp add: frameA_def numeral_eq_Suc)
  have blue: "inBounds px_blue (lower (colorRanges ! 0)) (upper (colorRanges ! 0))"
    and red: "\<not> inBounds px_blue (0, 100, 50) (10, 255, 255)"
      "\<not> inBounds px_blue (160, 100, 50) (179, 255, 255)"
    by (simp_all add: px_blue_def inBounds_def colorRanges_def)
  have "colorMask frameA 0 ! 0 ! 0 = 255"
    using size blue by (simp add: colorMask_def inRange_def px)
  then show ?thesis
    using red_mask_union [OF size] size blue red by (simp add: px)
qed

subsection \<open>C10\<close>

text \<open>
  Claim C10. The pass that detects motion on frame \<open>f\<close> writes \<open>f\<close> to the sink as its
  first frame and counts it: after the pass the sink holds exactly \<open>f\<close>, the frame counter
  is 1 and the controller records.
\<close>

theorem detection_frame_recorded_first:
  assumes "\<not> empty cv f" "detectionDue s now" "fst (colorLoop cv f 0 s)"
  shows "iteration cv s (f, now, key)
      = pollKey key ((snd (colorLoop cv f 0 s))
          \<lparr>writer := \<lparr>isOpened = True, written = [f]\<rparr>, recordingFrames := 1\<rparr>)
    \<and> written (writer (state_of (iteration cv s (f, now, key)))) = [f]
    \<and> recordingFrames (state_of (iteration cv s (f, now, key))) = 1
    \<and> isRecording (state_of (iteration cv s (f, now, key)))"
proof -
  let ?s1 = "snd (colorLoop cv f 0 s)"
  have s1: "isRecording ?s1" "recordingFrames ?s1 = 0" "writer ?s1 = open_writer"
    using assms(3) by (simp_all add: colorLoop_fields)
  have "iteration cv s (f, now, key) = writeAndStop f key ?s1"
    using assms by (simp add: iteration_def detectionAttempt_alt)
  also have "\<dots> = pollKey key (?s1\<lparr>writer := \<lparr>isOpened = True, written = [f]\<rparr>, recordingFrames := 1\<rparr>)"
    using s1 by (simp add: writeAndStop_def write_frame_def open_writer_def maxRecordingFrames_450)
  finally show ?thesis
    using s1 by (simp add: state_of_pollKey)
qed

theorem detection_frame_recorded_first_witness:
  "\<not> empty refcv frameB \<and> detectionDue stateA 10 \<and> fst (colorLoop refcv frameB 0 stateA)
    \<and> written (writer (state_of (iteration refcv stateA (frameB, 10, - 1)))) = [frameB]"
proof -
  have h1: "\<not> empty refcv frameB"
    by (simp add: refcv_empty frameB_def)
  have h2: "detectionDue stateA 10"
    by (simp add: detectionDue_code quietPeriod_def stateA_eq)
  have h3: "fst (colorLoop refcv frameB 0 stateA)"
    by (simp add: stateA_eq run_simps momsB)
  show ?thesis
    using detection_frame_recorded_first [OF h1 h2 h3, of "- 1"] h1 h2 h3
    by (simp add: state_of_pollKey)
qed

end
